theory Spec2Isabelle
  imports Complex_Main
begin

section \<open>Values of the program\<close>

text \<open>
  The program is a single Python module, \<^verbatim>\<open>luminvaria.py\<close>. Its own code is the
  hex/RGB conversion, the composition of the colorimetric pipeline, the gamut test,
  the yin levels and the chroma search of \<^verbatim>\<open>wheel\<close>. The colorimetric transforms
  themselves are calls into the \<^verbatim>\<open>colour\<close> library.

  A Python \<^verbatim>\<open>float\<close> is modelled by the real number it denotes (no NaN, no
  infinity). Each floating-point operation of the module is the exact operation followed
  by the rounding \<open>fl\<close> of the platform, which is a parameter; \<open>binary64_like\<close> states
  what the theorems need of it, and round-to-nearest binary64 satisfies it as long as no
  result overflows.

  A Python \<^verbatim>\<open>str\<close> that the module receives is the list of its code points,
  natural numbers; \<open>str\<close> turns a literal into one. The strings that the module
  builds itself consist of hex digits, and are kept as \<^typ>\<open>string\<close>.
\<close>

datatype py_error = ValueError | OverflowError

definition str :: "string \<Rightarrow> nat list" where
  "str s = map of_char s"

record CAM_Specification_CIECAM16 =
  spec_J :: real
  spec_C :: real
  spec_h :: real

text \<open>
  The platform: the rounding of float arithmetic and that of the \<^verbatim>\<open>pow\<close> of the C
  library, the two tables of the interpreter's
  Unicode database that \<^verbatim>\<open>int\<close> consults (which code points are whitespace, and
  the value of those that are decimal digits), and the four library functions the
  module calls, each with the module's constant arguments (the D65 white point of the
  10 degree observer, \<^verbatim>\<open>L_A\<close>, \<^verbatim>\<open>Y_b\<close>, the viewing conditions) already applied.
  An array of numpy is a list of reals.
\<close>

record platform =
  fl :: "real \<Rightarrow> real"
  fl_pow :: "real \<Rightarrow> real"
  unicode_isspace :: "nat \<Rightarrow> bool"
  unicode_todecimal :: "nat \<Rightarrow> nat option"
  sRGB_to_XYZ :: "real list \<Rightarrow> real list"
  XYZ_to_CIECAM16 :: "real list \<Rightarrow> CAM_Specification_CIECAM16"
  CIECAM16_to_XYZ :: "CAM_Specification_CIECAM16 \<Rightarrow> real list"
  XYZ_to_sRGB :: "real list \<Rightarrow> real list"

definition binary64_like :: "(real \<Rightarrow> real) \<Rightarrow> bool" where
  "binary64_like r \<longleftrightarrow>
     (\<forall>x. \<bar>r x - x\<bar> \<le> \<bar>x\<bar> / 2 ^ 53 + 1 / 2 ^ 1075) \<and>
     (\<forall>k::int. \<bar>k\<bar> \<le> 2 ^ 53 \<longrightarrow> r (of_int k) = of_int k)"

section \<open>The builtins the module uses\<close>

subsection \<open>\<^verbatim>\<open>int(s, 16)\<close>\<close>

text \<open>
  \<^verbatim>\<open>int\<close> on a \<^verbatim>\<open>str\<close> first makes an ASCII buffer of it, then parses the buffer
  with the C function \<^verbatim>\<open>PyLong_FromString\<close>. The parser comes first; \<open>is_space\<close> is
  its \<^verbatim>\<open>Py_ISSPACE\<close>.
\<close>

definition is_space :: "char \<Rightarrow> bool" where
  "is_space c \<longleftrightarrow> (of_char c :: nat) \<in> set [9, 10, 11, 12, 13, 32]"

definition hex_val :: "char \<Rightarrow> nat option" where
  "hex_val c =
     (let n = (of_char c :: nat) in
      if 48 \<le> n \<and> n \<le> 57 then Some (n - 48)
      else if 97 \<le> n \<and> n \<le> 102 then Some (n - 87)
      else if 65 \<le> n \<and> n \<le> 70 then Some (n - 55)
      else None)"

definition is_hex_digit :: "char \<Rightarrow> bool" where
  "is_hex_digit c \<longleftrightarrow> hex_val c \<noteq> None"

text \<open>
  The digit scan of CPython: digits and single underscores are consumed; an underscore
  after an underscore, or as the last consumed character, is an error. The result is the
  value and the rest of the string.
\<close>

fun long_from_binary_base :: "char \<Rightarrow> nat \<Rightarrow> string \<Rightarrow> (nat \<times> string) option" where
  "long_from_binary_base prev acc [] =
     (if prev = CHR ''_'' then None else Some (acc, []))"
| "long_from_binary_base prev acc (c # cs) =
     (if c = CHR ''_'' then
        (if prev = CHR ''_'' then None else long_from_binary_base c acc cs)
      else case hex_val c of
        Some d \<Rightarrow> long_from_binary_base c (16 * acc + d) cs
      | None \<Rightarrow> (if prev = CHR ''_'' then None else Some (acc, c # cs)))"

definition skip_sign :: "string \<Rightarrow> int \<times> string" where
  "skip_sign s =
     (case s of
        [] \<Rightarrow> (1, s)
      | c # cs \<Rightarrow> if c = CHR ''+'' then (1, cs) else if c = CHR ''-'' then (- 1, cs) else (1, s))"

definition skip_prefix :: "string \<Rightarrow> string" where
  "skip_prefix s =
     (case s of
        a # b # cs \<Rightarrow>
          if a = CHR ''0'' \<and> (b = CHR ''x'' \<or> b = CHR ''X'')
          then (case cs of [] \<Rightarrow> cs | u # ds \<Rightarrow> if u = CHR ''_'' then ds else cs)
          else s
      | _ \<Rightarrow> s)"

text \<open>
  The digits proper: no leading underscore, at least one character consumed, and nothing
  but whitespace after the digits.
\<close>

definition digits_value :: "string \<Rightarrow> nat option" where
  "digits_value s3 =
     (if s3 \<noteq> [] \<and> hd s3 = CHR ''_'' then None
      else (case long_from_binary_base (CHR 0x00) 0 s3 of
        None \<Rightarrow> None
      | Some (v, rest) \<Rightarrow>
          if rest = s3 then None
          else if dropWhile is_space rest \<noteq> [] then None
          else Some v))"

definition PyLong_FromString :: "string \<Rightarrow> py_error + int" where
  "PyLong_FromString s =
     (case skip_sign (dropWhile is_space s) of (sign, s2) \<Rightarrow>
        (case digits_value (skip_prefix s2) of
           None \<Rightarrow> Inl ValueError
         | Some v \<Rightarrow> Inr (sign * int v)))"

text \<open>
  The ASCII buffer. A \<^verbatim>\<open>str\<close> of ASCII is taken as it is. In any other, a code
  point from 127 on becomes a space if it is Unicode whitespace and the ASCII digit of
  its value if it is a Unicode decimal digit; at the first one that is neither, a
  question mark is written and the buffer ends.
\<close>

fun transform_decimal_and_space_to_ascii :: "platform \<Rightarrow> nat list \<Rightarrow> nat list" where
  "transform_decimal_and_space_to_ascii pf [] = []"
| "transform_decimal_and_space_to_ascii pf (ch # cs) =
     (if ch < 127 then ch # transform_decimal_and_space_to_ascii pf cs
      else if unicode_isspace pf ch then 32 # transform_decimal_and_space_to_ascii pf cs
      else (case unicode_todecimal pf ch of
        None \<Rightarrow> [63]
      | Some d \<Rightarrow> (48 + d) # transform_decimal_and_space_to_ascii pf cs))"

definition ascii_buffer :: "platform \<Rightarrow> nat list \<Rightarrow> string" where
  "ascii_buffer pf s =
     map char_of (if list_all (\<lambda>ch. ch < 128) s then s else transform_decimal_and_space_to_ascii pf s)"

definition py_int16 :: "platform \<Rightarrow> nat list \<Rightarrow> py_error + int" where
  "py_int16 pf s = PyLong_FromString (ascii_buffer pf s)"

text \<open>
  The buffers of at most two characters that the parser accepts, stated directly: one or
  two hex digits, or one hex digit after a sign or a whitespace character or before a
  whitespace character. Then the code points that can occur in an accepted slice: the
  hex digits, the signs \<^verbatim>\<open>+\<close> (43) and \<^verbatim>\<open>-\<close> (45), whitespace, and the decimal
  digits of Unicode.
\<close>

definition slice_ok :: "string \<Rightarrow> bool" where
  "slice_ok s =
     (case s of
        [a] \<Rightarrow> is_hex_digit a
      | [a, b] \<Rightarrow>
          (is_hex_digit a \<and> (is_hex_digit b \<or> is_space b)) \<or>
          ((is_space a \<or> a = CHR ''+'' \<or> a = CHR ''-'') \<and> is_hex_digit b)
      | _ \<Rightarrow> False)"

definition hex_code_point :: "nat \<Rightarrow> bool" where
  "hex_code_point ch \<longleftrightarrow> ch < 128 \<and> is_hex_digit (char_of ch)"

definition accepted_code_point :: "platform \<Rightarrow> nat \<Rightarrow> bool" where
  "accepted_code_point pf ch =
     (if ch < 127 then is_hex_digit (char_of ch) \<or> is_space (char_of ch) \<or> ch = 43 \<or> ch = 45
      else unicode_isspace pf ch \<or> unicode_todecimal pf ch \<noteq> None)"

text \<open>Lower case, on the letters of ASCII.\<close>

definition ascii_lower :: "char \<Rightarrow> char" where
  "ascii_lower c =
     (case map_of (zip ''ABCDEFGHIJKLMNOPQRSTUVWXYZ'' ''abcdefghijklmnopqrstuvwxyz'') c of
        Some l \<Rightarrow> l
      | None \<Rightarrow> c)"

subsection \<open>\<^verbatim>\<open>round\<close> on a float and the format \<^verbatim>\<open>02x\<close>\<close>

definition py_round :: "real \<Rightarrow> int" where
  "py_round x =
     (let f = \<lfloor>x\<rfloor>; d = x - of_int f in
      if d < 1 / 2 then f else if 1 / 2 < d then f + 1
      else if even f then f else f + 1)"

definition hex_digit :: "nat \<Rightarrow> char" where
  "hex_digit d = ''0123456789abcdef'' ! d"

fun hex_str :: "nat \<Rightarrow> string" where
  "hex_str n = (if n < 16 then [hex_digit n] else hex_str (n div 16) @ [hex_digit (n mod 16)])"

declare hex_str.simps [simp del]

definition format_02x :: "int \<Rightarrow> string" where
  "format_02x v =
     (if v < 0 then CHR ''-'' # hex_str (nat (- v))
      else let s = hex_str (nat v) in replicate (2 - length s) (CHR ''0'') @ s)"

section \<open>The module\<close>

definition hex_to_rgb :: "platform \<Rightarrow> nat list \<Rightarrow> py_error + real list" where
  "hex_to_rgb pf hx =
     (case py_int16 pf (take 2 hx) of
        Inl e \<Rightarrow> Inl e
      | Inr r \<Rightarrow>
          (case py_int16 pf (take 2 (drop 2 hx)) of
             Inl e \<Rightarrow> Inl e
           | Inr g \<Rightarrow>
               (case py_int16 pf (take 2 (drop 4 hx)) of
                  Inl e \<Rightarrow> Inl e
                | Inr b \<Rightarrow>
                    Inr [fl pf (of_int r / 255), fl pf (of_int g / 255), fl pf (of_int b / 255)])))"

definition rgb_to_xyz :: "platform \<Rightarrow> real list \<Rightarrow> real list" where
  "rgb_to_xyz pf rgb = sRGB_to_XYZ pf rgb"

definition xyz_to_ciecam16 :: "platform \<Rightarrow> real list \<Rightarrow> CAM_Specification_CIECAM16" where
  "xyz_to_ciecam16 pf xyz = XYZ_to_CIECAM16 pf xyz"

definition ciecam16_to_xyz :: "platform \<Rightarrow> CAM_Specification_CIECAM16 \<Rightarrow> real list" where
  "ciecam16_to_xyz pf ciecam16 = CIECAM16_to_XYZ pf ciecam16"

definition xyz_to_rgb :: "platform \<Rightarrow> real list \<Rightarrow> real list" where
  "xyz_to_rgb pf xyz = XYZ_to_sRGB pf (map (\<lambda>v. fl pf (v / 100)) xyz)"

definition clamp_channel :: "platform \<Rightarrow> real \<Rightarrow> int" where
  "clamp_channel pf val =
     (if val \<le> 0 then 0 else if 1 \<le> val then 255 else py_round (fl pf (val * 255)))"

definition rgb_to_hex :: "platform \<Rightarrow> real list \<Rightarrow> string" where
  "rgb_to_hex pf rgb = concat (map format_02x (map (clamp_channel pf) rgb))"

definition hex_to_ciecam16 :: "platform \<Rightarrow> nat list \<Rightarrow> py_error + CAM_Specification_CIECAM16" where
  "hex_to_ciecam16 pf hex_color =
     (case hex_to_rgb pf hex_color of
        Inl e \<Rightarrow> Inl e
      | Inr rgb_color \<Rightarrow> Inr (xyz_to_ciecam16 pf (rgb_to_xyz pf rgb_color)))"

definition ciecam16_to_hex :: "platform \<Rightarrow> CAM_Specification_CIECAM16 \<Rightarrow> string" where
  "ciecam16_to_hex pf ciecam16_color = rgb_to_hex pf (xyz_to_rgb pf (ciecam16_to_xyz pf ciecam16_color))"

definition ciecam16_is_within_srgb :: "platform \<Rightarrow> CAM_Specification_CIECAM16 \<Rightarrow> bool" where
  "ciecam16_is_within_srgb pf ciecam16_color =
     list_all (\<lambda>val. 0 \<le> val \<and> val \<le> 1) (xyz_to_rgb pf (ciecam16_to_xyz pf ciecam16_color))"

subsection \<open>The yin levels\<close>

text \<open>
  \<^verbatim>\<open>PHI\<close> is the decimal literal of the source, and \<^verbatim>\<open>yin_level\<close> is taken in
  exact arithmetic: the statements about it are the algebraic ones.
\<close>

definition PHI :: real where
  "PHI = 161803398874989484820458683436563811772030917980576286213544862270526046281890244970720720418939113748475 / 10 ^ 104"

definition yin_level :: "nat \<Rightarrow> real" where
  "yin_level level = (1 / PHI ^ (level + 1)) / 2"

definition neutral_levels :: "real list" where
  "neutral_levels =
     [yin_level 2 * 100, yin_level 1 * 100, yin_level 0 * 100,
      (1 - yin_level 0) * 100, (1 - yin_level 1) * 100, (1 - yin_level 2) * 100]"

subsection \<open>The chroma search of \<^verbatim>\<open>wheel\<close>\<close>

text \<open>
  The state of \<^verbatim>\<open>wheel\<close> after its search loop: the loop variable \<^verbatim>\<open>c\<close>
  (unbound before the first iteration), \<^verbatim>\<open>hues\<close>, \<^verbatim>\<open>out_of_gamut\<close>, the chroma
  printed by \<^verbatim>\<open>print("Solution found for C =", c)\<close> if any, and two counters that
  the source does not have: the iterations of the outer loop and the calls to
  \<^verbatim>\<open>ciecam16_is_within_srgb\<close>.
\<close>

record wheel_state =
  chroma :: "nat option"
  hues :: "string list"
  out_of_gamut :: bool
  announced :: "nat option"
  iterations :: nat
  classifier_calls :: nat

definition selected :: "platform \<Rightarrow> nat \<Rightarrow> nat \<Rightarrow> nat \<Rightarrow> CAM_Specification_CIECAM16" where
  "selected pf slices c i =
     \<lparr>spec_J = 50, spec_C = real c, spec_h = fl pf (fl pf (360 / real slices) * real i)\<rparr>"

text \<open>
  The inner loop over \<^verbatim>\<open>range(0, slices)\<close>: it returns \<^verbatim>\<open>hues\<close>,
  \<^verbatim>\<open>out_of_gamut\<close> and the number of classifier calls made.
\<close>

fun hue_loop :: "platform \<Rightarrow> nat \<Rightarrow> nat \<Rightarrow> nat list \<Rightarrow> string list \<Rightarrow> nat \<Rightarrow> string list \<times> bool \<times> nat" where
  "hue_loop pf slices c [] hs n = (hs, False, n)"
| "hue_loop pf slices c (i # is) hs n =
     (if ciecam16_is_within_srgb pf (selected pf slices c i)
      then hue_loop pf slices c is (hs @ [ciecam16_to_hex pf (selected pf slices c i)]) (Suc n)
      else (hs, True, Suc n))"

text \<open>
  The outer loop over the candidate chromas; \<open>candidates\<close> below is
  \<^verbatim>\<open>range(100, 0, -1)\<close>.
\<close>

fun chroma_loop :: "platform \<Rightarrow> nat \<Rightarrow> nat list \<Rightarrow> wheel_state \<Rightarrow> wheel_state" where
  "chroma_loop pf slices [] st = st"
| "chroma_loop pf slices (c # cs) st =
     (case hue_loop pf slices c [0..<slices] [] 0 of
        (hs, oog, n) \<Rightarrow>
          let st' = st\<lparr>chroma := Some c, hues := hs, out_of_gamut := oog,
                       iterations := Suc (iterations st),
                       classifier_calls := classifier_calls st + n\<rparr>
          in if \<not> oog then st'\<lparr>announced := Some c\<rparr> else chroma_loop pf slices cs st')"

definition candidates :: "nat list" where
  "candidates = rev [1..<101]"

definition wheel_search :: "platform \<Rightarrow> nat \<Rightarrow> wheel_state" where
  "wheel_search pf slices =
     chroma_loop pf slices candidates
       \<lparr>chroma = None, hues = [], out_of_gamut = False, announced = None,
        iterations = 0, classifier_calls = 0\<rparr>"

text \<open>
  \<^verbatim>\<open>wheel\<close> itself: \<^verbatim>\<open>slices = 6\<close>; the result is what it prints about the
  search and the matrix it passes to \<^verbatim>\<open>display_colors\<close>.
\<close>

definition wheel :: "platform \<Rightarrow> nat option \<times> string list list" where
  "wheel pf =
     (let st = wheel_search pf 6;
          neutrals = map (\<lambda>j. ciecam16_to_hex pf \<lparr>spec_J = j, spec_C = 0, spec_h = 0\<rparr>) neutral_levels
      in (announced st, [hues st, neutrals]))"

text \<open>
  What the inner loop decides for a candidate chroma: every hue of the wheel passes the
  classifier.
\<close>

definition feasible :: "platform \<Rightarrow> nat \<Rightarrow> nat \<Rightarrow> bool" where
  "feasible pf slices c = list_all (\<lambda>i. ciecam16_is_within_srgb pf (selected pf slices c i)) [0..<slices]"

section \<open>Platforms to evaluate on\<close>

text \<open>
  The two tables of the Unicode database, as of Unicode 14.0: the whitespace code
  points, and the code points of the digit zero of each decimal digit block, each
  followed by its digits one to nine.
\<close>

definition unicode14_isspace :: "nat \<Rightarrow> bool" where
  "unicode14_isspace ch \<longleftrightarrow> ch \<in> set
     [9, 10, 11, 12, 13, 28, 29, 30, 31, 32, 133, 160, 5760, 8192, 8193, 8194, 8195, 8196, 8197, 8198, 8199, 8200, 8201, 8202, 8232, 8233, 8239, 8287, 12288]"

definition unicode14_zeros :: "nat list" where
  "unicode14_zeros =
     [
      48, 1632, 1776, 1984, 2406, 2534, 2662, 2790, 2918, 3046, 3174, 3302,
      3430, 3558, 3664, 3792, 3872, 4160, 4240, 6112, 6160, 6470, 6608, 6784,
      6800, 6992, 7088, 7232, 7248, 42528, 43216, 43264, 43472, 43504, 43600, 44016,
      65296, 66720, 68912, 69734, 69872, 69942, 70096, 70384, 70736, 70864, 71248, 71360,
      71472, 71904, 72016, 72784, 73040, 73120, 92768, 92864, 93008, 120782, 120792, 120802,
      120812, 120822, 123200, 123632, 125264, 130032]"

definition unicode14_todecimal :: "nat \<Rightarrow> nat option" where
  "unicode14_todecimal ch =
     (case find (\<lambda>z. z \<le> ch \<and> ch < z + 10) unicode14_zeros of
        None \<Rightarrow> None
      | Some z \<Rightarrow> Some (ch - z))"

text \<open>
  An exact platform with simple stand-ins for the library, on which every definition
  above computes. Its gamut at lightness 50 is \<open>C + h / 10 \<le> 100\<close>.
\<close>

definition demo_platform :: platform where
  "demo_platform =
     \<lparr>fl = (\<lambda>x. x),
      fl_pow = (\<lambda>x. x),
      unicode_isspace = unicode14_isspace,
      unicode_todecimal = unicode14_todecimal,
      sRGB_to_XYZ = map (\<lambda>v. 100 * v),
      XYZ_to_CIECAM16 = (\<lambda>xyz. \<lparr>spec_J = xyz ! 0, spec_C = xyz ! 1, spec_h = xyz ! 2\<rparr>),
      CIECAM16_to_XYZ = (\<lambda>s. [spec_C s, spec_C s + spec_h s / 10, 100]),
      XYZ_to_sRGB = (\<lambda>xyz. xyz)\<rparr>"

text \<open>
  A second platform, for the pipeline from a hex color to a specification and back: a
  stand-in library whose conversions are exact inverses of each other. XYZ is linear RGB
  on the scale of 0 to 1, on which \<^verbatim>\<open>sRGB_to_XYZ\<close> of the library returns it, and a
  specification holds the three tristimulus values.
\<close>

definition unit_scale_platform :: platform where
  "unit_scale_platform =
     \<lparr>fl = (\<lambda>x. x),
      fl_pow = (\<lambda>x. x),
      unicode_isspace = unicode14_isspace,
      unicode_todecimal = unicode14_todecimal,
      sRGB_to_XYZ = (\<lambda>rgb. rgb),
      XYZ_to_CIECAM16 = (\<lambda>xyz. \<lparr>spec_J = xyz ! 0, spec_C = xyz ! 1, spec_h = xyz ! 2\<rparr>),
      CIECAM16_to_XYZ = (\<lambda>s. [spec_J s, spec_C s, spec_h s]),
      XYZ_to_sRGB = (\<lambda>xyz. xyz)\<rparr>"

section \<open>The search loops\<close>

lemma hue_loop_result:
  "hue_loop pf slices c js hs n =
     (if list_all (\<lambda>i. ciecam16_is_within_srgb pf (selected pf slices c i)) js
      then (hs @ map (\<lambda>i. ciecam16_to_hex pf (selected pf slices c i)) js, False, n + length js)
      else (hs @ map (\<lambda>i. ciecam16_to_hex pf (selected pf slices c i))
                    (takeWhile (\<lambda>i. ciecam16_is_within_srgb pf (selected pf slices c i)) js),
            True,
            n + Suc (length (takeWhile (\<lambda>i. ciecam16_is_within_srgb pf (selected pf slices c i)) js))))"
  by (induction js arbitrary: hs n) auto

lemma hue_loop_calls:
  "hue_loop pf slices c js hs n = (hs', oog, n') \<Longrightarrow> n' \<le> n + length js"
proof (induction js arbitrary: hs n)
  case Nil
  then show ?case by simp
next
  case (Cons j js)
  then show ?case by (fastforce split: if_splits)
qed

lemma hue_loop_oog:
  "hue_loop pf slices c [0..<slices] [] 0 = (hs, oog, n) \<Longrightarrow> oog = (\<not> feasible pf slices c)"
  by (simp add: hue_loop_result feasible_def split: if_splits)

lemma chroma_loop_announced:
  "announced (chroma_loop pf slices cs st) =
     (case find (feasible pf slices) cs of Some c \<Rightarrow> Some c | None \<Rightarrow> announced st)"
proof (induction cs arbitrary: st)
  case Nil
  then show ?case by simp
next
  case (Cons c cs)
  obtain hs oog n where h: "hue_loop pf slices c [0..<slices] [] 0 = (hs, oog, n)"
    by (cases "hue_loop pf slices c [0..<slices] [] 0") auto
  from hue_loop_oog [OF h] show ?case
    using Cons.IH h by (simp add: Let_def split: option.splits)
qed

lemma find_countdown:
  "find P (rev [1..<Suc n]) = Some c \<longleftrightarrow>
     1 \<le> c \<and> c \<le> n \<and> P c \<and> (\<forall>c'. c < c' \<and> c' \<le> n \<longrightarrow> \<not> P c')"
proof (induction n)
  case 0
  then show ?case by auto
next
  case (Suc n)
  show ?case
  proof (cases "P (Suc n)")
    case True
    have "c = Suc n" if "c \<le> Suc n" "\<forall>c'. c < c' \<and> c' \<le> Suc n \<longrightarrow> \<not> P c'"
      using that True by (cases "c < Suc n") auto
    with True show ?thesis by auto
  next
    case False
    have "find P (rev [1..<Suc (Suc n)]) = find P (rev [1..<Suc n])"
      using False by simp
    also have "\<dots> = Some c \<longleftrightarrow> 1 \<le> c \<and> c \<le> n \<and> P c \<and> (\<forall>c'. c < c' \<and> c' \<le> n \<longrightarrow> \<not> P c')"
      by (rule Suc.IH)
    finally show ?thesis using False
      by (metis le_Suc_eq)
  qed
qed

lemma find_candidates:
  "find P candidates = Some c \<longleftrightarrow>
     1 \<le> c \<and> c \<le> 100 \<and> P c \<and> (\<forall>c'. c < c' \<and> c' \<le> 100 \<longrightarrow> \<not> P c')"
  using find_countdown [of P 100 c] by (simp add: candidates_def)

lemma find_candidates_None:
  "find P candidates = None \<longleftrightarrow> (\<forall>c. 1 \<le> c \<and> c \<le> 100 \<longrightarrow> \<not> P c)"
  by (auto simp: find_None_iff candidates_def)

lemma length_candidates: "length candidates = 100"
  by (simp add: candidates_def)

lemma last_candidates: "candidates \<noteq> [] \<and> last candidates = 1"
  by (simp add: candidates_def last_rev upt_conv_Cons)

lemma chroma_loop_counts:
  "iterations (chroma_loop pf slices cs st) \<le> iterations st + length cs \<and>
   classifier_calls (chroma_loop pf slices cs st) \<le> classifier_calls st + length cs * slices"
proof (induction cs arbitrary: st)
  case Nil
  then show ?case by simp
next
  case (Cons c cs)
  obtain hs oog n where h: "hue_loop pf slices c [0..<slices] [] 0 = (hs, oog, n)"
    by (cases "hue_loop pf slices c [0..<slices] [] 0") auto
  from hue_loop_calls [OF h] have n: "n \<le> slices" by simp
  let ?st = "st\<lparr>chroma := Some c, hues := hs, out_of_gamut := oog,
                       iterations := Suc (iterations st),
                       classifier_calls := classifier_calls st + n\<rparr>"
  show ?case
  proof (cases oog)
    case False
    then show ?thesis using h n by (simp add: Let_def)
  next
    case True
    from Cons.IH [of ?st] show ?thesis using h n True by (simp add: Let_def)
  qed
qed

lemma chroma_loop_found:
  "find (feasible pf slices) cs = Some c \<Longrightarrow>
     chroma (chroma_loop pf slices cs st) = Some c \<and>
     hues (chroma_loop pf slices cs st) = map (\<lambda>i. ciecam16_to_hex pf (selected pf slices c i)) [0..<slices] \<and>
     \<not> out_of_gamut (chroma_loop pf slices cs st)"
proof (induction cs arbitrary: st)
  case Nil
  then show ?case by simp
next
  case (Cons d cs)
  show ?case
  proof (cases "feasible pf slices d")
    case True
    with Cons.prems have "d = c" by simp
    with True show ?thesis
      by (simp add: hue_loop_result feasible_def Let_def)
  next
    case False
    with Cons.prems have "find (feasible pf slices) cs = Some c" by simp
    from Cons.IH [OF this] False show ?thesis
      by (simp add: hue_loop_result feasible_def Let_def)
  qed
qed

lemma chroma_loop_not_found:
  "find (feasible pf slices) cs = None \<Longrightarrow>
     chroma (chroma_loop pf slices cs st) = (if cs = [] then chroma st else Some (last cs))"
proof (induction cs arbitrary: st)
  case Nil
  then show ?case by simp
next
  case (Cons d cs)
  from Cons.prems have nf: "\<not> feasible pf slices d" and rest: "find (feasible pf slices) cs = None"
    by (simp_all split: if_splits)
  from Cons.IH [OF rest] nf show ?case
    by (simp add: hue_loop_result feasible_def Let_def)
qed

lemma selected_six:
  assumes "binary64_like (fl pf)" and "i < 6"
  shows "selected pf 6 c i = \<lparr>spec_J = 50, spec_C = real c, spec_h = 60 * real i\<rparr>"
proof -
  from assms(1) have ex: "\<And>k::int. \<bar>k\<bar> \<le> 2 ^ 53 \<Longrightarrow> fl pf (of_int k) = of_int k"
    by (simp add: binary64_like_def)
  have "fl pf (of_int 60) = of_int 60" by (rule ex) simp
  then have a: "fl pf 60 = 60" by simp
  have "fl pf (of_int (60 * int i)) = of_int (60 * int i)"
    using assms(2) by (intro ex) simp
  then have b: "fl pf (60 * real i) = 60 * real i" by simp
  show ?thesis by (simp add: selected_def a b)
qed

lemma feasible_six:
  assumes "binary64_like (fl pf)"
  shows "feasible pf 6 c \<longleftrightarrow>
    (\<forall>i<6. ciecam16_is_within_srgb pf \<lparr>spec_J = 50, spec_C = real c, spec_h = 60 * real i\<rparr>)"
  using selected_six [OF assms] by (auto simp: feasible_def list_all_iff)

lemma feasible_first_hue:
  assumes "feasible pf 6 c"
  shows "feasible pf 1 c"
  using assms by (simp add: feasible_def selected_def upt_rec [of 0 6])

lemma py_round_of_int: "py_round (of_int k) = k"
  by (simp add: py_round_def)

lemma clamp_channel_in_gamut:
  assumes "binary64_like (fl pf)" and "0 \<le> v" and "v \<le> 1"
  shows "clamp_channel pf v = py_round (fl pf (v * 255))"
proof -
  from assms(1) have ex: "\<And>k::int. \<bar>k\<bar> \<le> 2 ^ 53 \<Longrightarrow> fl pf (of_int k) = of_int k"
    by (simp add: binary64_like_def)
  have "fl pf (of_int 0) = of_int 0" by (rule ex) simp
  then have z: "py_round (fl pf 0) = 0" using py_round_of_int [of 0] by simp
  have "fl pf (of_int 255) = of_int 255" by (rule ex) simp
  then have o: "py_round (fl pf 255) = 255" using py_round_of_int [of 255] by simp
  show ?thesis
    using assms(2,3) z o by (auto simp: clamp_channel_def)
qed

lemma announced_wheel_search:
  "announced (wheel_search pf slices) = Some c \<longleftrightarrow>
     1 \<le> c \<and> c \<le> 100 \<and> feasible pf slices c \<and>
     (\<forall>c'. c < c' \<and> c' \<le> 100 \<longrightarrow> \<not> feasible pf slices c')"
proof -
  have "announced (wheel_search pf slices) = find (feasible pf slices) candidates"
    by (simp add: wheel_search_def chroma_loop_announced split: option.splits)
  then show ?thesis by (simp only: find_candidates)
qed

lemma demo_binary64_like: "binary64_like (fl demo_platform)"
  by (simp add: demo_platform_def binary64_like_def)

lemma demo_within:
  "ciecam16_is_within_srgb demo_platform \<lparr>spec_J = j, spec_C = real c, spec_h = 60 * real i\<rparr>
     \<longleftrightarrow> c + 6 * i \<le> 100"
proof -
  have "real c + 6 * real i \<le> 100 \<longleftrightarrow> c + 6 * i \<le> 100"
    by linarith
  then show ?thesis
    by (auto simp: ciecam16_is_within_srgb_def xyz_to_rgb_def ciecam16_to_xyz_def demo_platform_def)
qed

lemma demo_in_gamut:
  "(\<forall>i<6. ciecam16_is_within_srgb demo_platform \<lparr>spec_J = 50, spec_C = real c, spec_h = 60 * real i\<rparr>)
     \<longleftrightarrow> c \<le> 70"
proof -
  have "(\<forall>i<6. c + 6 * i \<le> 100) \<longleftrightarrow> c \<le> 70"
  proof
    assume "\<forall>i<6. c + 6 * i \<le> 100"
    then have "(5::nat) < 6 \<longrightarrow> c + 6 * 5 \<le> 100" by (rule spec)
    then show "c \<le> 70" by simp
  next
    assume "c \<le> 70"
    then show "\<forall>i<6. c + 6 * i \<le> 100" by auto
  qed
  then show ?thesis by (simp only: demo_within)
qed

lemma chroma_wheel_search:
  "chroma (wheel_search pf slices) =
     (case find (feasible pf slices) candidates of Some c \<Rightarrow> Some c | None \<Rightarrow> Some 1)"
proof (cases "find (feasible pf slices) candidates")
  case None
  from chroma_loop_not_found [OF None] show ?thesis
    using None last_candidates by (simp add: wheel_search_def)
next
  case (Some c)
  from chroma_loop_found [OF Some] show ?thesis
    using Some by (simp add: wheel_search_def)
qed

lemma announced_find:
  "announced (wheel_search pf slices) = find (feasible pf slices) candidates"
  by (simp add: wheel_search_def chroma_loop_announced split: option.splits)

lemma demo_feasible: "feasible demo_platform 6 c \<longleftrightarrow> c \<le> 70"
  by (simp only: feasible_six [OF demo_binary64_like] demo_in_gamut)

lemma demo_announced: "announced (wheel_search demo_platform 6) = Some 70"
  by (simp add: announced_wheel_search demo_feasible)

lemma hues_wheel_search:
  assumes "announced (wheel_search pf slices) = Some c"
  shows "hues (wheel_search pf slices) = map (\<lambda>i. ciecam16_to_hex pf (selected pf slices c i)) [0..<slices]"
proof -
  from assms have "find (feasible pf slices) candidates = Some c"
    by (simp add: announced_find)
  from chroma_loop_found [OF this] show ?thesis
    by (simp add: wheel_search_def)
qed

lemma rgb_to_hex_in_gamut:
  assumes "binary64_like (fl pf)" and "list_all (\<lambda>val. 0 \<le> val \<and> val \<le> 1) rgb"
  shows "rgb_to_hex pf rgb = concat (map (\<lambda>v. format_02x (py_round (fl pf (v * 255)))) rgb)"
proof -
  have "map (format_02x \<circ> clamp_channel pf) rgb = map (\<lambda>v. format_02x (py_round (fl pf (v * 255)))) rgb"
    using assms(2) clamp_channel_in_gamut [OF assms(1)] by (simp add: list_all_iff)
  then show ?thesis by (simp only: rgb_to_hex_def map_map)
qed

lemma demo_wheel_announces: "fst (wheel demo_platform) = Some 70"
  using demo_announced by (simp add: wheel_def Let_def)

lemma demo_first_hue: "ciecam16_to_hex demo_platform \<lparr>spec_J = 50, spec_C = real 70, spec_h = 60 * real 0\<rparr> = ''b2b2ff''"
  by code_simp

section \<open>The yin levels, in exact arithmetic\<close>




section \<open>Parsing the slices of a hex color\<close>

lemma special_chars:
  "\<not> is_space (CHR ''+'')" "\<not> is_space (CHR ''-'')" "\<not> is_space (CHR ''_'')"
  "\<not> is_space (CHR ''x'')" "\<not> is_space (CHR ''X'')"
  "hex_val (CHR ''+'') = None" "hex_val (CHR ''-'') = None" "hex_val (CHR ''_'') = None"
  "hex_val (CHR ''x'') = None" "hex_val (CHR ''X'') = None" "hex_val (CHR ''0'') = Some 0"
  by (simp_all add: is_space_def hex_val_def)

lemma hex_digit_not_space: "hex_val c = Some d \<Longrightarrow> \<not> is_space c"
  by (auto simp: hex_val_def is_space_def Let_def split: if_splits)

lemma hex_val_less: "hex_val c = Some d \<Longrightarrow> d < 16"
  by (auto simp: hex_val_def Let_def split: if_splits)

lemma hex_digit_plain:
  assumes "hex_val c = Some d"
  shows "\<not> is_space c" "c \<noteq> CHR ''+''" "c \<noteq> CHR ''-''" "c \<noteq> CHR ''_''" "c \<noteq> CHR ''x''" "c \<noteq> CHR ''X''"
  using assms special_chars hex_digit_not_space by auto

lemma space_plain:
  assumes "is_space c"
  shows "hex_val c = None" "c \<noteq> CHR ''+''" "c \<noteq> CHR ''-''" "c \<noteq> CHR ''_''"
  using assms special_chars hex_digit_not_space by (cases "hex_val c"; auto)+

lemma digits_value_Nil: "digits_value [] = None"
  by (simp add: digits_value_def)

lemma digits_value_one: "digits_value [a] = hex_val a"
proof (cases "hex_val a")
  case None
  then show ?thesis by (simp add: digits_value_def)
next
  case (Some d)
  with hex_digit_plain(4) [OF Some] show ?thesis by (simp add: digits_value_def)
qed

lemma digits_value_two:
  "digits_value [a, b] =
     (case hex_val a of
        None \<Rightarrow> None
      | Some x \<Rightarrow> (case hex_val b of Some y \<Rightarrow> Some (16 * x + y) | None \<Rightarrow> if is_space b then Some x else None))"
proof (cases "hex_val a")
  case None
  then show ?thesis by (simp add: digits_value_def)
next
  case a: (Some x)
  note na = hex_digit_plain(4) [OF a]
  show ?thesis
  proof (cases "hex_val b")
    case (Some y)
    with a na hex_digit_plain(4) [OF Some] show ?thesis by (simp add: digits_value_def)
  next
    case None
    show ?thesis
    proof (cases "b = CHR ''_''")
      case True
      with a na None special_chars(3) show ?thesis by (simp add: digits_value_def)
    next
      case False
      with a na None show ?thesis by (simp add: digits_value_def)
    qed
  qed
qed

lemma skip_prefix_short:
  "skip_prefix [] = []" "skip_prefix [a] = [a]"
  "skip_prefix [a, b] = (if a = CHR ''0'' \<and> (b = CHR ''x'' \<or> b = CHR ''X'') then [] else [a, b])"
  by (simp_all add: skip_prefix_def)

lemma PyLong_FromString_Nil: "PyLong_FromString [] = Inl ValueError"
  by (simp add: PyLong_FromString_def skip_sign_def skip_prefix_short digits_value_Nil)

lemma PyLong_FromString_one:
  "PyLong_FromString [a] = (case hex_val a of Some d \<Rightarrow> Inr (int d) | None \<Rightarrow> Inl ValueError)"
proof (cases "is_space a")
  case True
  with space_plain(1) [OF True] show ?thesis
    by (simp add: PyLong_FromString_def skip_sign_def skip_prefix_short digits_value_Nil)
next
  case False
  show ?thesis
  proof (cases "a = CHR ''+'' \<or> a = CHR ''-''")
    case True
    with False special_chars show ?thesis
      by (auto simp: PyLong_FromString_def skip_sign_def skip_prefix_short digits_value_Nil)
  next
    case False
    with \<open>\<not> is_space a\<close> show ?thesis
      by (simp add: PyLong_FromString_def skip_sign_def skip_prefix_short digits_value_one split: option.splits)
  qed
qed

lemma PyLong_FromString_two_digits:
  assumes "hex_val a = Some x" and "hex_val b = Some y"
  shows "PyLong_FromString [a, b] = Inr (int (16 * x + y))"
  using hex_digit_plain [OF assms(1)] hex_digit_plain [OF assms(2)] assms
  by (simp add: PyLong_FromString_def skip_sign_def skip_prefix_short digits_value_two)

lemma PyLong_FromString_two:
  "(\<exists>v. PyLong_FromString [a, b] = Inr v) \<longleftrightarrow> slice_ok [a, b]"
proof (cases "is_space a")
  case True
  note sa = space_plain [OF True]
  have "PyLong_FromString [a, b] = PyLong_FromString [b]"
    using True by (simp add: PyLong_FromString_def)
  then show ?thesis using True sa
    by (simp add: PyLong_FromString_one slice_ok_def is_hex_digit_def split: option.splits)
next
  case nsp: False
  show ?thesis
  proof (cases "a = CHR ''+'' \<or> a = CHR ''-''")
    case True
    then have ha: "hex_val a = None" using special_chars by auto
    from True nsp have "PyLong_FromString [a, b] =
        (case hex_val b of None \<Rightarrow> Inl ValueError | Some v \<Rightarrow> Inr ((if a = CHR ''+'' then 1 else - 1) * int v))"
      by (auto simp: PyLong_FromString_def skip_sign_def skip_prefix_short digits_value_one)
    then show ?thesis using True ha nsp
      by (simp add: slice_ok_def is_hex_digit_def split: option.splits)
  next
    case nsg: False
    show ?thesis
    proof (cases "hex_val a")
      case None
      with nsp nsg special_chars show ?thesis
        by (auto simp: PyLong_FromString_def skip_sign_def skip_prefix_short digits_value_two digits_value_Nil
            slice_ok_def is_hex_digit_def)
    next
      case a: (Some x)
      show ?thesis
      proof (cases "hex_val b")
        case (Some y)
        with a show ?thesis
          by (simp add: PyLong_FromString_two_digits slice_ok_def is_hex_digit_def)
      next
        case None
        show ?thesis
        proof (cases "a = CHR ''0'' \<and> (b = CHR ''x'' \<or> b = CHR ''X'')")
          case True
          with nsp nsg a None special_chars show ?thesis
            by (auto simp: PyLong_FromString_def skip_sign_def skip_prefix_short digits_value_Nil
                slice_ok_def is_hex_digit_def)
        next
          case False
          with nsp nsg have "PyLong_FromString [a, b] =
              (case digits_value [a, b] of None \<Rightarrow> Inl ValueError | Some v \<Rightarrow> Inr (int v))"
            by (auto simp: PyLong_FromString_def skip_sign_def skip_prefix_short split: option.splits)
          with a None show ?thesis
            by (simp add: digits_value_two slice_ok_def is_hex_digit_def)
        qed
      qed
    qed
  qed
qed

lemma PyLong_FromString_short:
  assumes "length s \<le> 2"
  shows "(\<exists>v. PyLong_FromString s = Inr v) \<longleftrightarrow> slice_ok s"
proof -
  from assms consider "s = []" | a where "s = [a]" | a b where "s = [a, b]"
    by (cases s; cases "tl s"; cases "tl (tl s)") auto
  then show ?thesis
  proof cases
    case 1
    then show ?thesis by (simp add: PyLong_FromString_Nil slice_ok_def)
  next
    case 2
    then show ?thesis by (simp add: PyLong_FromString_one slice_ok_def is_hex_digit_def split: option.splits)
  next
    case 3
    then show ?thesis by (simp only: PyLong_FromString_two)
  qed
qed

lemma PyLong_FromString_error: "PyLong_FromString s = Inl e \<Longrightarrow> e = ValueError"
  by (auto simp: PyLong_FromString_def split: prod.splits option.splits)

lemma length_transform: "length (transform_decimal_and_space_to_ascii pf s) \<le> length s"
  by (induction s) (auto split: option.splits)

lemma length_ascii_buffer: "length (ascii_buffer pf s) \<le> length s"
  by (simp add: ascii_buffer_def length_transform)

lemma hex_digit_ascii: "hex_val c = Some d \<Longrightarrow> (of_char c :: nat) < 128"
  by (auto simp: hex_val_def Let_def split: if_splits)

lemma ascii_buffer_str:
  assumes "list_all is_hex_digit s"
  shows "ascii_buffer pf (str s) = s"
proof -
  from assms have "list_all (\<lambda>ch. ch < 128) (str s)"
    by (auto simp: list_all_iff str_def is_hex_digit_def dest: hex_digit_ascii)
  then show ?thesis by (simp add: ascii_buffer_def str_def comp_def)
qed

lemma py_int16_str:
  assumes "list_all is_hex_digit s"
  shows "py_int16 pf (str s) = PyLong_FromString s"
  by (simp add: py_int16_def ascii_buffer_str [OF assms])

lemma py_int16_short:
  assumes "length s \<le> 2"
  shows "(\<exists>v. py_int16 pf s = Inr v) \<longleftrightarrow> slice_ok (ascii_buffer pf s)"
proof -
  from assms length_ascii_buffer [of pf s] have "length (ascii_buffer pf s) \<le> 2" by simp
  then show ?thesis unfolding py_int16_def by (rule PyLong_FromString_short)
qed

lemma hex_to_rgb_Inr:
  "(\<exists>rgb. hex_to_rgb pf hx = Inr rgb) \<longleftrightarrow>
     slice_ok (ascii_buffer pf (take 2 hx)) \<and> slice_ok (ascii_buffer pf (take 2 (drop 2 hx))) \<and>
     slice_ok (ascii_buffer pf (take 2 (drop 4 hx)))"
proof -
  have "(\<exists>rgb. hex_to_rgb pf hx = Inr rgb) \<longleftrightarrow>
      (\<exists>r. py_int16 pf (take 2 hx) = Inr r) \<and> (\<exists>g. py_int16 pf (take 2 (drop 2 hx)) = Inr g) \<and>
      (\<exists>b. py_int16 pf (take 2 (drop 4 hx)) = Inr b)"
    by (auto simp: hex_to_rgb_def split: sum.splits)
  then show ?thesis by (simp add: py_int16_short)
qed

lemma hex_to_rgb_error: "hex_to_rgb pf hx = Inl e \<Longrightarrow> e = ValueError"
  by (auto simp: hex_to_rgb_def py_int16_def split: sum.splits dest: PyLong_FromString_error)

lemma hex_to_rgb_Inl:
  "hex_to_rgb pf hx = Inl ValueError \<longleftrightarrow> \<not> (\<exists>rgb. hex_to_rgb pf hx = Inr rgb)"
proof (cases "hex_to_rgb pf hx")
  case (Inl e)
  with hex_to_rgb_error [OF Inl] show ?thesis by simp
next
  case (Inr rgb)
  then show ?thesis by simp
qed

lemma char_of_eq:
  assumes "(ch::nat) < 256"
  shows "char_of ch = c \<longleftrightarrow> ch = of_char c"
  using assms by auto

lemma rejected_ascii:
  assumes "ch < 128" and "\<not> accepted_code_point pf ch \<or> ch = 127"
  shows "\<not> is_hex_digit (char_of ch) \<and> \<not> is_space (char_of ch) \<and>
    char_of ch \<noteq> CHR ''+'' \<and> char_of ch \<noteq> CHR ''-''"
proof (cases "ch = 127")
  case True
  then show ?thesis by (simp add: is_hex_digit_def hex_val_def is_space_def char_of_eq)
next
  case False
  with assms have "ch < 127" "\<not> accepted_code_point pf ch" by auto
  then show ?thesis by (simp add: accepted_code_point_def char_of_eq)
qed

lemma rejected_transform:
  assumes "ch \<in> set s" and "\<not> accepted_code_point pf ch"
  shows "\<exists>x\<in>set (transform_decimal_and_space_to_ascii pf s).
    \<not> is_hex_digit (char_of x) \<and> \<not> is_space (char_of x) \<and>
    char_of x \<noteq> CHR ''+'' \<and> char_of x \<noteq> CHR ''-''"
  using assms(1)
proof (induction s)
  case Nil
  then show ?case by simp
next
  case (Cons c cs)
  have q: "\<not> is_hex_digit (char_of (63::nat)) \<and> \<not> is_space (char_of (63::nat)) \<and>
    char_of (63::nat) \<noteq> CHR ''+'' \<and> char_of (63::nat) \<noteq> CHR ''-''"
    by (simp add: is_hex_digit_def hex_val_def is_space_def char_of_eq)
  show ?case
  proof (cases "ch = c")
    case True
    show ?thesis
    proof (cases "c < 127")
      case lt: True
      with True assms(2) rejected_ascii [of c pf] show ?thesis by simp
    next
      case False
      with True assms(2) have "\<not> unicode_isspace pf c" "unicode_todecimal pf c = None"
        by (simp_all add: accepted_code_point_def)
      with False q show ?thesis by simp
    qed
  next
    case False
    with Cons.prems have "ch \<in> set cs" by simp
    from Cons.IH [OF this] q show ?thesis by (auto split: option.splits)
  qed
qed

lemma rejected_code_point:
  assumes "ch \<in> set s" and "\<not> accepted_code_point pf ch"
  shows "\<exists>b\<in>set (ascii_buffer pf s).
    \<not> is_hex_digit b \<and> \<not> is_space b \<and> b \<noteq> CHR ''+'' \<and> b \<noteq> CHR ''-''"
proof (cases "list_all (\<lambda>ch. ch < 128) s")
  case True
  with assms(1) have "ch < 128" by (simp add: list_all_iff)
  from rejected_ascii [of ch pf] this assms(2)
  have "\<not> is_hex_digit (char_of ch) \<and> \<not> is_space (char_of ch) \<and>
    char_of ch \<noteq> CHR ''+'' \<and> char_of ch \<noteq> CHR ''-''" by blast
  moreover from True assms(1) have "char_of ch \<in> set (ascii_buffer pf s)"
    by (simp add: ascii_buffer_def)
  ultimately show ?thesis by blast
next
  case False
  with rejected_transform [OF assms] show ?thesis
    by (auto simp: ascii_buffer_def)
qed

lemma hex_code_points_buffer:
  assumes "list_all hex_code_point s"
  shows "ascii_buffer pf s = map char_of s \<and> list_all is_hex_digit (ascii_buffer pf s)"
proof -
  from assms have "list_all (\<lambda>ch. ch < 128) s"
    by (simp add: list_all_iff hex_code_point_def)
  then have "ascii_buffer pf s = map char_of s" by (simp add: ascii_buffer_def)
  with assms show ?thesis by (simp add: list_all_iff hex_code_point_def)
qed

lemma slice_ok_chars:
  assumes "slice_ok s" and "c \<in> set s"
  shows "is_hex_digit c \<or> is_space c \<or> c = CHR ''+'' \<or> c = CHR ''-''"
proof -
  from assms(1) consider a where "s = [a]" | a b where "s = [a, b]"
    by (auto simp: slice_ok_def split: list.splits)
  then show ?thesis
    using assms by cases (auto simp: slice_ok_def)
qed

lemma take_6_slices: "take 6 hx = take 2 hx @ take 2 (drop 2 hx) @ take 2 (drop 4 hx)"
proof -
  have "take (2 + (2 + 2)) hx = take 2 hx @ take 2 (drop 2 hx) @ take 2 (drop (2 + 2) hx)"
    by (simp only: take_add drop_drop add.commute)
  then show ?thesis by simp
qed

lemma slice_ok_hex2:
  assumes "length s = 2" and "list_all is_hex_digit s"
  shows "slice_ok s"
proof -
  from assms(1) obtain a b where "s = [a, b]"
    by (cases s; cases "tl s") auto
  with assms(2) show ?thesis by (simp add: slice_ok_def)
qed

lemma rejected_slice:
  assumes "ch \<in> set s" and "\<not> accepted_code_point pf ch"
  shows "\<not> slice_ok (ascii_buffer pf s)"
proof
  assume ok: "slice_ok (ascii_buffer pf s)"
  from rejected_code_point [OF assms] obtain b where b: "b \<in> set (ascii_buffer pf s)"
    "\<not> is_hex_digit b" "\<not> is_space b" "b \<noteq> CHR ''+''" "b \<noteq> CHR ''-''"
    by blast
  from slice_ok_chars [OF ok b(1)] b(2-5) show False by simp
qed

section \<open>Bytes, digits and rounding\<close>

lemma hex_chars:
  assumes "hex_val c = Some d"
  shows "c \<in> set ''0123456789abcdefABCDEF''"
proof -
  define n where "n = (of_char c :: nat)"
  from assms have "(48 \<le> n \<and> n \<le> 57) \<or> (97 \<le> n \<and> n \<le> 102) \<or> (65 \<le> n \<and> n \<le> 70)"
    by (auto simp: hex_val_def Let_def n_def split: if_splits)
  then have "n \<in> {48, 49, 50, 51, 52, 53, 54, 55, 56, 57, 97, 98, 99, 100, 101, 102, 65, 66, 67, 68, 69, 70}"
    by (simp only: insert_iff empty_iff) arith
  then have "\<exists>c'\<in>set ''0123456789abcdefABCDEF''. (of_char c' :: nat) = n"
    by (elim insertE emptyE) simp_all
  then obtain c' where c': "c' \<in> set ''0123456789abcdefABCDEF''" "(of_char c' :: nat) = of_char c"
    unfolding n_def by blast
  from c'(2) have "c' = c" by (simp only: of_char_eq_iff)
  with c'(1) show ?thesis by simp
qed

lemma hex_digit_lower_table:
  "\<forall>c\<in>set ''0123456789abcdefABCDEF''. hex_digit (the (hex_val c)) = ascii_lower c"
  by (simp add: hex_val_def hex_digit_def ascii_lower_def)

lemma hex_digit_lower:
  assumes "hex_val c = Some d"
  shows "hex_digit d = ascii_lower c"
  using hex_chars [OF assms] hex_digit_lower_table assms by fastforce

lemma hex_val_hex_digit:
  assumes "d < 16"
  shows "hex_val (hex_digit d) = Some d"
proof -
  from assms have "d \<in> {0, 1, 2, 3, 4, 5, 6, 7, 8, 9, 10, 11, 12, 13, 14, 15}"
    by (simp only: insert_iff empty_iff) arith
  then show ?thesis by (elim insertE emptyE) (simp_all add: hex_val_def hex_digit_def)
qed

lemma hex_str_byte:
  assumes "n < 256"
  shows "hex_str n = (if n < 16 then [hex_digit n] else [hex_digit (n div 16), hex_digit (n mod 16)])"
proof (cases "n < 16")
  case True
  then show ?thesis by (simp add: hex_str.simps)
next
  case False
  with assms have "n div 16 < 16" by simp
  then have "hex_str (n div 16) = [hex_digit (n div 16)]" by (simp add: hex_str.simps)
  with False show ?thesis by (subst hex_str.simps) simp
qed

lemma format_02x_byte:
  assumes "0 \<le> k" and "k \<le> 255"
  shows "format_02x k = [hex_digit (nat k div 16), hex_digit (nat k mod 16)]"
proof -
  from assms have n: "nat k < 256" by simp
  show ?thesis
  proof (cases "nat k < 16")
    case True
    with assms n show ?thesis by (simp add: format_02x_def hex_str_byte hex_digit_def Let_def)
  next
    case False
    with assms n show ?thesis by (simp add: format_02x_def hex_str_byte Let_def)
  qed
qed

lemma PyLong_FromString_format_02x:
  assumes "0 \<le> k" and "k \<le> 255"
  shows "PyLong_FromString (format_02x k) = Inr k"
proof -
  from assms have "nat k div 16 < 16" "nat k mod 16 < 16" by simp_all
  then have "PyLong_FromString [hex_digit (nat k div 16), hex_digit (nat k mod 16)] =
      Inr (int (16 * (nat k div 16) + nat k mod 16))"
    by (intro PyLong_FromString_two_digits hex_val_hex_digit)
  with assms show ?thesis by (simp add: format_02x_byte)
qed

lemma fl_coarse:
  assumes "binary64_like r"
  shows "\<bar>r x - x\<bar> \<le> (\<bar>x\<bar> + 1) / 1000000"
proof -
  from assms have "\<bar>r x - x\<bar> \<le> \<bar>x\<bar> / 2 ^ 53 + 1 / 2 ^ 1075"
    by (simp add: binary64_like_def)
  moreover have "\<bar>x\<bar> / 2 ^ 53 \<le> \<bar>x\<bar> / 1000000"
    by (intro divide_left_mono) simp_all
  moreover have "(1::real) / 2 ^ 1075 \<le> 1 / 1000000"
    by (intro divide_left_mono) simp_all
  ultimately have "\<bar>r x - x\<bar> \<le> \<bar>x\<bar> / 1000000 + 1 / 1000000" by linarith
  then show ?thesis by (simp add: add_divide_distrib)
qed

lemma fl_exact:
  assumes "binary64_like r" and "\<bar>k\<bar> \<le> 2 ^ 53"
  shows "r (of_int k) = of_int k"
  using assms by (simp add: binary64_like_def)

lemma py_round_bounds: "x - 1 / 2 \<le> of_int (py_round x) \<and> of_int (py_round x) \<le> x + 1 / 2"
proof -
  define f where "f = \<lfloor>x\<rfloor>"
  have f: "of_int f \<le> x" "x < of_int f + 1" unfolding f_def by linarith+
  have r: "py_round x = (if x - of_int f < 1 / 2 then f else if 1 / 2 < x - of_int f then f + 1
      else if even f then f else f + 1)"
    by (simp add: py_round_def Let_def f_def)
  consider "x - of_int f < 1 / 2" | "1 / 2 < x - of_int f" | "x - of_int f = 1 / 2" by linarith
  then show ?thesis
  proof cases
    case 1
    with f r show ?thesis by simp
  next
    case 2
    with f r show ?thesis by simp
  next
    case 3
    then have "py_round x = f \<or> py_round x = f + 1" using r by simp
    with 3 show ?thesis by auto
  qed
qed

lemma py_round_near:
  assumes "\<bar>x - of_int k\<bar> < 1 / 2"
  shows "py_round x = k"
proof -
  from py_round_bounds [of x] assms
  have "of_int (py_round x) < (of_int k :: real) + 1" "(of_int k :: real) - 1 < of_int (py_round x)"
    by linarith+
  then have "py_round x < k + 1" "k - 1 < py_round x"
    by linarith+
  then show ?thesis by simp
qed

lemma clamp_channel_spec:
  assumes "binary64_like (fl pf)"
  shows "clamp_channel pf v = py_round (fl pf (max 0 (min 1 v) * 255))"
proof -
  have "fl pf (of_int 0) = of_int 0" by (rule fl_exact [OF assms]) simp
  then have z: "py_round (fl pf 0) = 0" using py_round_of_int [of 0] by simp
  have "fl pf (of_int 255) = of_int 255" by (rule fl_exact [OF assms]) simp
  then have o: "py_round (fl pf 255) = 255" using py_round_of_int [of 255] by simp
  consider "v \<le> 0" | "1 \<le> v" | "0 < v" "v < 1" by linarith
  then show ?thesis
  proof cases
    case 1
    then show ?thesis using z by (simp add: clamp_channel_def max_def min_def)
  next
    case 2
    then show ?thesis using o by (simp add: clamp_channel_def max_def min_def)
  next
    case 3
    then show ?thesis by (simp add: clamp_channel_def max_def min_def)
  qed
qed

lemma clamp_channel_range:
  assumes "binary64_like (fl pf)"
  shows "0 \<le> clamp_channel pf v \<and> clamp_channel pf v \<le> 255"
proof -
  consider "v \<le> 0" | "1 \<le> v" | "0 < v" "v < 1" by linarith
  then show ?thesis
  proof cases
    case 1
    then show ?thesis by (simp add: clamp_channel_def)
  next
    case 2
    then show ?thesis by (auto simp: clamp_channel_def)
  next
    case 3
    define x where "x = v * 255"
    from 3 have x: "0 \<le> x" "x \<le> 255" by (simp_all add: x_def)
    from fl_coarse [OF assms, of x] x have "\<bar>fl pf x - x\<bar> \<le> 256 / 1000000"
      by (simp add: abs_if split: if_splits)
    with x have fx: "- (1 / 4) \<le> fl pf x" "fl pf x \<le> 255 + 1 / 4" by linarith+
    from py_round_bounds [of "fl pf x"] fx
    have "(- 1 :: real) < of_int (py_round (fl pf x))" "of_int (py_round (fl pf x)) < (256 :: real)"
      by linarith+
    then have "- 1 < py_round (fl pf x)" "py_round (fl pf x) < 256" by linarith+
    with 3 show ?thesis by (simp add: clamp_channel_def x_def)
  qed
qed

lemma clamp_channel_byte:
  assumes "binary64_like (fl pf)" and "0 \<le> b" and "b \<le> 255"
  shows "clamp_channel pf (fl pf (of_int b / 255)) = b"
proof -
  consider "b = 0" | "b = 255" | "0 < b" "b < 255" using assms(2,3) by linarith
  then show ?thesis
  proof cases
    case 1
    have "fl pf (of_int 0) = of_int 0" by (rule fl_exact [OF assms(1)]) simp
    with 1 show ?thesis by (simp add: clamp_channel_def)
  next
    case 2
    have "fl pf (of_int 1) = of_int 1" by (rule fl_exact [OF assms(1)]) simp
    with 2 show ?thesis by (simp add: clamp_channel_def)
  next
    case 3
    define q :: real where "q = of_int b / 255"
    define v where "v = fl pf q"
    from 3 have "1 \<le> b" "b \<le> 254" by simp_all
    then have "(1::real) \<le> of_int b" "(of_int b :: real) \<le> 254" by linarith+
    then have q: "1 / 255 \<le> q" "q \<le> 254 / 255" by (simp_all add: q_def)
    from fl_coarse [OF assms(1), of q] q have ev: "\<bar>v - q\<bar> \<le> 2 / 1000000"
      by (simp add: v_def abs_if split: if_splits)
    with q have v: "0 < v" "v < 1" by linarith+
    have b: "of_int b = q * 255" by (simp add: q_def)
    from ev have e1: "\<bar>v * 255 - of_int b\<bar> \<le> 510 / 1000000"
      unfolding b by linarith
    with q b have "\<bar>v * 255\<bar> \<le> 255" by linarith
    then have "(\<bar>v * 255\<bar> + 1) / 1000000 \<le> 256 / 1000000" by simp
    with fl_coarse [OF assms(1), of "v * 255"]
    have "\<bar>fl pf (v * 255) - v * 255\<bar> \<le> 256 / 1000000" by (rule order_trans)
    with e1 have "\<bar>fl pf (v * 255) - of_int b\<bar> < 1 / 2" by linarith
    then have "py_round (fl pf (v * 255)) = b" by (rule py_round_near)
    with v show ?thesis by (simp add: clamp_channel_def v_def q_def)
  qed
qed

lemma slice_roundtrip:
  assumes "binary64_like (fl pf)" and "hex_val a = Some x" and "hex_val b = Some y"
  shows "format_02x (clamp_channel pf (fl pf (of_int (int (16 * x + y)) / 255))) = [ascii_lower a, ascii_lower b]"
proof -
  from assms(2,3) have xy: "x < 16" "y < 16" by (auto dest: hex_val_less)
  then have r: "0 \<le> int (16 * x + y)" "int (16 * x + y) \<le> 255" by simp_all
  from xy have d: "(16 * x + y) div 16 = x" "(16 * x + y) mod 16 = y" by simp_all
  have "format_02x (clamp_channel pf (fl pf (of_int (int (16 * x + y)) / 255))) = format_02x (int (16 * x + y))"
    by (simp only: clamp_channel_byte [OF assms(1) r])
  also have "\<dots> = [hex_digit (nat (int (16 * x + y)) div 16), hex_digit (nat (int (16 * x + y)) mod 16)]"
    by (rule format_02x_byte [OF r])
  also have "\<dots> = [hex_digit x, hex_digit y]"
    by (simp only: nat_int d)
  finally show ?thesis
    by (simp only: hex_digit_lower [OF assms(2)] hex_digit_lower [OF assms(3)])
qed

lemma list6:
  assumes "length h = 6"
  obtains a1 a2 b1 b2 c1 c2 where "h = [a1, a2, b1, b2, c1, c2]"
  using assms by (auto simp: eval_nat_numeral length_Suc_conv)

lemma list3:
  assumes "length rgb = 3"
  obtains r g b where "rgb = [r, g, b]"
  using assms by (auto simp: eval_nat_numeral length_Suc_conv)

lemma channel_hex:
  assumes "binary64_like (fl pf)"
  shows "\<exists>p q. format_02x (clamp_channel pf v) = [p, q] \<and> is_hex_digit p \<and> is_hex_digit q \<and>
     py_int16 pf (str [p, q]) = Inr (py_round (fl pf (max 0 (min 1 v) * 255))) \<and>
     0 \<le> py_round (fl pf (max 0 (min 1 v) * 255)) \<and>
     py_round (fl pf (max 0 (min 1 v) * 255)) \<le> 255"
proof -
  define k where "k = clamp_channel pf v"
  from clamp_channel_range [OF assms, of v] have r: "0 \<le> k" "k \<le> 255" by (simp_all add: k_def)
  have s: "k = py_round (fl pf (max 0 (min 1 v) * 255))"
    unfolding k_def by (rule clamp_channel_spec [OF assms])
  from r have d: "nat k div 16 < 16" "nat k mod 16 < 16" by simp_all
  have f: "format_02x k = [hex_digit (nat k div 16), hex_digit (nat k mod 16)]"
    by (rule format_02x_byte [OF r])
  have h: "is_hex_digit (hex_digit (nat k div 16))" "is_hex_digit (hex_digit (nat k mod 16))"
    using d by (simp_all add: is_hex_digit_def hex_val_hex_digit)
  have "PyLong_FromString [hex_digit (nat k div 16), hex_digit (nat k mod 16)] = Inr k"
    using PyLong_FromString_format_02x [OF r] by (simp only: f)
  with h have p: "py_int16 pf (str [hex_digit (nat k div 16), hex_digit (nat k mod 16)]) = Inr k"
    by (simp add: py_int16_str)
  from f h p r show ?thesis unfolding s [symmetric] k_def [symmetric] by blast
qed

section \<open>The pipeline, composed\<close>

lemma pipeline_composition:
  assumes "hex_to_rgb pf h = Inr rgb"
    and "CIECAM16_to_XYZ pf (XYZ_to_CIECAM16 pf (sRGB_to_XYZ pf rgb)) = sRGB_to_XYZ pf rgb"
  shows "map_sum id (ciecam16_to_hex pf) (hex_to_ciecam16 pf h) =
     Inr (rgb_to_hex pf (XYZ_to_sRGB pf (map (\<lambda>v. fl pf (v / 100)) (sRGB_to_XYZ pf rgb))))"
  using assms
  by (simp add: hex_to_ciecam16_def ciecam16_to_hex_def xyz_to_rgb_def ciecam16_to_xyz_def
      xyz_to_ciecam16_def rgb_to_xyz_def)

lemma unit_scale_hex_to_rgb:
  "hex_to_rgb unit_scale_platform (str ''4488ff'') = Inr [68 / 255, 136 / 255, 1]"
proof -
  have s: "take 2 (str ''4488ff'') = str ''44''" "take 2 (drop 2 (str ''4488ff'')) = str ''88''"
    "take 2 (drop 4 (str ''4488ff'')) = str ''ff''"
    by (simp_all add: str_def)
  have h: "hex_val (CHR ''4'') = Some 4" "hex_val (CHR ''8'') = Some 8" "hex_val (CHR ''f'') = Some 15"
    by (simp_all add: hex_val_def)
  then have p: "py_int16 unit_scale_platform (str ''44'') = Inr 68"
    "py_int16 unit_scale_platform (str ''88'') = Inr 136"
    "py_int16 unit_scale_platform (str ''ff'') = Inr 255"
    by (simp_all add: py_int16_str is_hex_digit_def PyLong_FromString_two_digits)
  show ?thesis
    unfolding hex_to_rgb_def s p by (simp add: unit_scale_platform_def)
qed

lemma unit_scale_dark: "rgb_to_hex unit_scale_platform [68 / 25500, 136 / 25500, 1 / 100] = ''010103''"
  by code_simp

section \<open>The chroma search\<close>

text \<open>
  C9. The search of \<^verbatim>\<open>wheel\<close> ends (both loops run over finite ranges, so the model
  is a total function), after at most 100 iterations of the outer loop and at most
  100 times \<open>slices\<close> calls to \<^verbatim>\<open>ciecam16_is_within_srgb\<close>.
\<close>

theorem wheel_search_bounded:
  "iterations (wheel_search pf slices) \<le> 100 \<and>
   classifier_calls (wheel_search pf slices) \<le> 100 * slices"
  using chroma_loop_counts [of pf slices candidates
      "\<lparr>chroma = None, hues = [], out_of_gamut = False, announced = None,
        iterations = 0, classifier_calls = 0\<rparr>"]
  by (simp add: wheel_search_def length_candidates)

text \<open>
  C1. \<^verbatim>\<open>wheel\<close> prints chroma \<open>c\<close> exactly when \<open>c\<close> is the largest integer of 1 to 100
  at which all six specifications \<open>(J = 50, C = c, h = 60 i)\<close> pass the classifier.
\<close>

theorem wheel_announces_maximal_chroma:
  assumes "binary64_like (fl pf)"
  shows "fst (wheel pf) = Some c \<longleftrightarrow>
     1 \<le> c \<and> c \<le> 100 \<and>
     (\<forall>i<6. ciecam16_is_within_srgb pf \<lparr>spec_J = 50, spec_C = real c, spec_h = 60 * real i\<rparr>) \<and>
     (\<forall>c'. c < c' \<and> c' \<le> 100 \<longrightarrow>
        \<not> (\<forall>i<6. ciecam16_is_within_srgb pf \<lparr>spec_J = 50, spec_C = real c', spec_h = 60 * real i\<rparr>))"
proof -
  have "fst (wheel pf) = announced (wheel_search pf 6)"
    by (simp add: wheel_def Let_def)
  then show ?thesis
    by (simp only: announced_wheel_search feasible_six [OF assms])
qed

theorem wheel_announces_maximal_chroma_witness:
  "binary64_like (fl demo_platform) \<and> fst (wheel demo_platform) = Some 70"
proof -
  have "fst (wheel demo_platform) = Some 70"
    unfolding wheel_announces_maximal_chroma [OF demo_binary64_like, of 70] demo_in_gamut
    by simp
  with demo_binary64_like show ?thesis by simp
qed

text \<open>
  C8. With one slice instead of six, the chroma the search ends on is at least the one it
  ends on with six; and when the search with six slices prints its chroma, the search
  with one slice prints one that is at least as large.
\<close>

theorem fewer_slices_never_lower_chroma:
  "\<exists>c1 c6. chroma (wheel_search pf 1) = Some c1 \<and> chroma (wheel_search pf 6) = Some c6 \<and> c6 \<le> c1 \<and>
     (announced (wheel_search pf 6) = Some c6 \<longrightarrow> announced (wheel_search pf 1) = Some c1)"
proof (cases "find (feasible pf 6) candidates")
  case None
  then have c6: "chroma (wheel_search pf 6) = Some 1" and a6: "announced (wheel_search pf 6) = None"
    by (simp_all add: chroma_wheel_search announced_find)
  show ?thesis
  proof (cases "find (feasible pf 1) candidates")
    case None
    then have "chroma (wheel_search pf 1) = Some 1" by (simp add: chroma_wheel_search)
    with c6 a6 show ?thesis by simp
  next
    case (Some c1)
    then have "1 \<le> c1" by (simp add: find_candidates)
    moreover from Some have "chroma (wheel_search pf 1) = Some c1" by (simp add: chroma_wheel_search)
    ultimately show ?thesis using c6 a6 by simp
  qed
next
  case (Some c6)
  then have c6: "chroma (wheel_search pf 6) = Some c6" by (simp add: chroma_wheel_search)
  from Some have r6: "1 \<le> c6" "c6 \<le> 100" "feasible pf 6 c6" by (simp_all add: find_candidates)
  from r6(3) have f1: "feasible pf 1 c6" by (rule feasible_first_hue)
  show ?thesis
  proof (cases "find (feasible pf 1) candidates")
    case None
    with r6(1,2) f1 show ?thesis by (simp add: find_candidates_None)
  next
    case (Some c1)
    then have "\<forall>c'. c1 < c' \<and> c' \<le> 100 \<longrightarrow> \<not> feasible pf 1 c'" by (simp add: find_candidates)
    with f1 r6(2) have "c6 \<le> c1" by (meson not_le_imp_less)
    moreover from Some have "chroma (wheel_search pf 1) = Some c1" "announced (wheel_search pf 1) = Some c1"
      by (simp_all add: chroma_wheel_search announced_find)
    ultimately show ?thesis using c6 by simp
  qed
qed

theorem fewer_slices_never_lower_chroma_witness:
  "announced (wheel_search demo_platform 6) = Some 70 \<and>
   (\<exists>c1. announced (wheel_search demo_platform 1) = Some c1 \<and> chroma (wheel_search demo_platform 1) = Some c1 \<and> 70 \<le> c1)"
proof -
  from demo_announced have "chroma (wheel_search demo_platform 6) = Some 70"
    by (simp add: announced_find chroma_wheel_search)
  with fewer_slices_never_lower_chroma [of demo_platform] demo_announced show ?thesis
    by auto
qed

text \<open>
  C10. When \<^verbatim>\<open>wheel\<close> prints chroma \<open>c\<close>, the first row passed to the display has six
  entries; entry \<open>i\<close> is \<^verbatim>\<open>ciecam16_to_hex\<close> of \<open>(J = 50, C = c, h = 60 i)\<close>, that
  specification passed the classifier, and the entry is the plain rounding of its
  channels: the clamping branches of \<^verbatim>\<open>rgb_to_hex\<close> change nothing.
\<close>

theorem wheel_hues_in_gamut:
  assumes "binary64_like (fl pf)" and "fst (wheel pf) = Some c"
  shows "length (hd (snd (wheel pf))) = 6 \<and>
    (\<forall>i<6. hd (snd (wheel pf)) ! i =
               ciecam16_to_hex pf \<lparr>spec_J = 50, spec_C = real c, spec_h = 60 * real i\<rparr> \<and>
            ciecam16_is_within_srgb pf \<lparr>spec_J = 50, spec_C = real c, spec_h = 60 * real i\<rparr> \<and>
            ciecam16_to_hex pf \<lparr>spec_J = 50, spec_C = real c, spec_h = 60 * real i\<rparr> =
               concat (map (\<lambda>v. format_02x (py_round (fl pf (v * 255))))
                 (xyz_to_rgb pf (ciecam16_to_xyz pf \<lparr>spec_J = 50, spec_C = real c, spec_h = 60 * real i\<rparr>))))"
proof -
  from assms(2) have a: "announced (wheel_search pf 6) = Some c"
    by (simp add: wheel_def Let_def)
  have row: "hd (snd (wheel pf)) = map (\<lambda>i. ciecam16_to_hex pf (selected pf 6 c i)) [0..<6]"
    using hues_wheel_search [OF a] by (simp add: wheel_def Let_def)
  from a have "feasible pf 6 c" by (simp add: announced_wheel_search)
  then have within: "\<forall>i<6. ciecam16_is_within_srgb pf \<lparr>spec_J = 50, spec_C = real c, spec_h = 60 * real i\<rparr>"
    by (simp only: feasible_six [OF assms(1)])
  have len: "length (hd (snd (wheel pf))) = 6" by (simp add: row)
  have "hd (snd (wheel pf)) ! i =
               ciecam16_to_hex pf \<lparr>spec_J = 50, spec_C = real c, spec_h = 60 * real i\<rparr>" if "i < 6" for i
    using that selected_six [OF assms(1) that] by (simp add: row)
  moreover have "ciecam16_to_hex pf \<lparr>spec_J = 50, spec_C = real c, spec_h = 60 * real i\<rparr> =
               concat (map (\<lambda>v. format_02x (py_round (fl pf (v * 255))))
                 (xyz_to_rgb pf (ciecam16_to_xyz pf \<lparr>spec_J = 50, spec_C = real c, spec_h = 60 * real i\<rparr>)))"
    if "i < 6" for i
  proof -
    from within that have "ciecam16_is_within_srgb pf \<lparr>spec_J = 50, spec_C = real c, spec_h = 60 * real i\<rparr>"
      by simp
    then show ?thesis
      unfolding ciecam16_to_hex_def ciecam16_is_within_srgb_def
      by (rule rgb_to_hex_in_gamut [OF assms(1)])
  qed
  ultimately show ?thesis using len within by simp
qed

theorem wheel_hues_in_gamut_witness:
  "binary64_like (fl demo_platform) \<and> fst (wheel demo_platform) = Some 70 \<and>
   length (hd (snd (wheel demo_platform))) = 6 \<and>
   hd (snd (wheel demo_platform)) ! 0 = ''b2b2ff''"
  using wheel_hues_in_gamut [OF demo_binary64_like demo_wheel_announces]
    demo_binary64_like demo_wheel_announces demo_first_hue
  by simp

section \<open>The neutral ramp\<close>



section \<open>Hex colors\<close>

text \<open>
  C4, as the code has it. \<^verbatim>\<open>hex_to_rgb\<close> succeeds on every string of exactly six hex
  digits. It raises, and then \<^verbatim>\<open>ValueError\<close>, exactly when one of the slices
  \<^verbatim>\<open>hx[0:2]\<close>, \<^verbatim>\<open>hx[2:4]\<close>, \<^verbatim>\<open>hx[4:6]\<close> is not accepted by \<^verbatim>\<open>int(s, 16)\<close>;
  so it raises on every string of fewer than five characters and on every string with a
  character among its first six that is no hex digit, sign, whitespace or Unicode
  decimal digit.
\<close>

theorem hex_to_rgb_failures:
  "(length hx = 6 \<and> list_all hex_code_point hx \<longrightarrow> (\<exists>rgb. hex_to_rgb pf hx = Inr rgb)) \<and>
   (hex_to_rgb pf hx = Inl ValueError \<longleftrightarrow>
      \<not> (slice_ok (ascii_buffer pf (take 2 hx)) \<and> slice_ok (ascii_buffer pf (take 2 (drop 2 hx))) \<and>
         slice_ok (ascii_buffer pf (take 2 (drop 4 hx))))) \<and>
   (length hx < 5 \<longrightarrow> hex_to_rgb pf hx = Inl ValueError) \<and>
   ((\<exists>ch\<in>set (take 6 hx). \<not> accepted_code_point pf ch) \<longrightarrow> hex_to_rgb pf hx = Inl ValueError)"
proof (intro conjI impI)
  assume "length hx = 6 \<and> list_all hex_code_point hx"
  then have len: "length hx = 6" and all: "\<forall>c\<in>set hx. hex_code_point c"
    by (simp_all add: list_all_iff)
  have sub: "set (take 2 hx) \<subseteq> set hx" "set (take 2 (drop 2 hx)) \<subseteq> set hx"
    "set (take 2 (drop 4 hx)) \<subseteq> set hx"
    by (meson set_take_subset set_drop_subset subset_trans)+
  have ok: "slice_ok (ascii_buffer pf s)" if "set s \<subseteq> set hx" "length s = 2" for s
  proof -
    from that(1) all have "list_all hex_code_point s" by (auto simp: list_all_iff)
    note b = hex_code_points_buffer [OF this, of pf]
    from b have e: "ascii_buffer pf s = map char_of s" by (rule conjunct1)
    from b have h: "list_all is_hex_digit (ascii_buffer pf s)" by (rule conjunct2)
    from that(2) have "length (ascii_buffer pf s) = 2" by (simp add: e)
    then show ?thesis using h by (rule slice_ok_hex2)
  qed
  have "slice_ok (ascii_buffer pf (take 2 hx))"
    using len by (intro ok sub) simp
  moreover have "slice_ok (ascii_buffer pf (take 2 (drop 2 hx)))"
    using len by (intro ok sub) simp
  moreover have "slice_ok (ascii_buffer pf (take 2 (drop 4 hx)))"
    using len by (intro ok sub) simp
  ultimately show "\<exists>rgb. hex_to_rgb pf hx = Inr rgb" by (simp add: hex_to_rgb_Inr)
next
  show "hex_to_rgb pf hx = Inl ValueError \<longleftrightarrow>
      \<not> (slice_ok (ascii_buffer pf (take 2 hx)) \<and> slice_ok (ascii_buffer pf (take 2 (drop 2 hx))) \<and>
         slice_ok (ascii_buffer pf (take 2 (drop 4 hx))))"
    by (simp only: hex_to_rgb_Inl hex_to_rgb_Inr)
next
  assume "length hx < 5"
  then have "\<not> slice_ok (ascii_buffer pf (take 2 (drop 4 hx)))"
    by (simp add: slice_ok_def ascii_buffer_def)
  then show "hex_to_rgb pf hx = Inl ValueError"
    by (simp only: hex_to_rgb_Inl hex_to_rgb_Inr) simp
next
  assume "\<exists>ch\<in>set (take 6 hx). \<not> accepted_code_point pf ch"
  then obtain ch where c: "ch \<in> set (take 6 hx)" "\<not> accepted_code_point pf ch" by blast
  from c(1) have "ch \<in> set (take 2 hx) \<or> ch \<in> set (take 2 (drop 2 hx)) \<or> ch \<in> set (take 2 (drop 4 hx))"
    by (simp only: take_6_slices set_append Un_iff)
  then have "\<not> (slice_ok (ascii_buffer pf (take 2 hx)) \<and> slice_ok (ascii_buffer pf (take 2 (drop 2 hx))) \<and>
         slice_ok (ascii_buffer pf (take 2 (drop 4 hx))))"
    using rejected_slice [OF _ c(2)] by blast
  then show "hex_to_rgb pf hx = Inl ValueError"
    by (simp only: hex_to_rgb_Inl hex_to_rgb_Inr) simp
qed

theorem hex_to_rgb_failures_witness:
  "(\<exists>rgb. hex_to_rgb demo_platform (str ''4488ff'') = Inr rgb) \<and>
   hex_to_rgb demo_platform (str ''4488'') = Inl ValueError \<and>
   hex_to_rgb demo_platform (str ''44g8ff'') = Inl ValueError \<and>
   hex_to_rgb demo_platform [52, 52, 56, 56, 65345, 102] = Inl ValueError"
proof -
  have a: "length (str ''4488ff'') = 6 \<and> list_all hex_code_point (str ''4488ff'')"
    by (simp add: str_def hex_code_point_def is_hex_digit_def hex_val_def)
  have b: "length (str ''4488'') < 5" by (simp add: str_def)
  have c: "\<exists>ch\<in>set (take 6 (str ''44g8ff'')). \<not> accepted_code_point demo_platform ch"
    by (simp add: str_def accepted_code_point_def is_hex_digit_def hex_val_def is_space_def)
  have "unicode_todecimal demo_platform 65345 = None"
    by (simp add: demo_platform_def unicode14_todecimal_def unicode14_zeros_def)
  moreover have "\<not> unicode_isspace demo_platform 65345"
    by (simp add: demo_platform_def unicode14_isspace_def)
  ultimately have d: "\<exists>ch\<in>set (take 6 [52, 52, 56, 56, 65345, 102]). \<not> accepted_code_point demo_platform ch"
    by (simp add: accepted_code_point_def)
  from hex_to_rgb_failures [of "str ''4488ff''" demo_platform] a
  have "\<exists>rgb. hex_to_rgb demo_platform (str ''4488ff'') = Inr rgb" by blast
  moreover from hex_to_rgb_failures [of "str ''4488''" demo_platform] b
  have "hex_to_rgb demo_platform (str ''4488'') = Inl ValueError" by blast
  moreover from hex_to_rgb_failures [of "str ''44g8ff''" demo_platform] c
  have "hex_to_rgb demo_platform (str ''44g8ff'') = Inl ValueError" by blast
  moreover from hex_to_rgb_failures [of "[52, 52, 56, 56, 65345, 102]" demo_platform] d
  have "hex_to_rgb demo_platform [52, 52, 56, 56, 65345, 102] = Inl ValueError" by blast
  ultimately show ?thesis by simp
qed

text \<open>
  C4 as stated fails: the five characters \<^verbatim>\<open>4488f\<close> are not six hex digits, and
  \<^verbatim>\<open>hex_to_rgb\<close> returns a color for them, the last slice being \<^verbatim>\<open>f\<close>. So does
  the string of six characters that starts with two ARABIC-INDIC DIGIT FOUR (code point
  1636) and goes on with \<^verbatim>\<open>88ff\<close>.
\<close>

theorem hex_to_rgb_rejects_counterexample:
  "\<not> (length (str ''4488f'') = 6 \<and> list_all hex_code_point (str ''4488f'')) \<and>
   hex_to_rgb demo_platform (str ''4488f'') = Inr [68 / 255, 136 / 255, 15 / 255] \<and>
   \<not> list_all hex_code_point [1636, 1636, 56, 56, 102, 102] \<and>
   hex_to_rgb demo_platform [1636, 1636, 56, 56, 102, 102] = Inr [68 / 255, 136 / 255, 1]"
proof -
  have d: "unicode_todecimal demo_platform 1636 = Some 4" "\<not> unicode_isspace demo_platform 1636"
    by (simp_all add: demo_platform_def unicode14_todecimal_def unicode14_zeros_def unicode14_isspace_def)
  have f: "fl demo_platform = (\<lambda>x. x)" by (simp add: demo_platform_def)
  have h: "hex_val (CHR ''4'') = Some 4" "hex_val (CHR ''8'') = Some 8" "hex_val (CHR ''f'') = Some 15"
    by (simp_all add: hex_val_def)
  have b1: "ascii_buffer demo_platform [1636, 1636] = ''44''"
    by (simp add: ascii_buffer_def d char_of_eq)
  have b2: "ascii_buffer demo_platform [56, 56] = ''88''" "ascii_buffer demo_platform [102, 102] = ''ff''"
    "ascii_buffer demo_platform [52, 52] = ''44''" "ascii_buffer demo_platform [102] = ''f''"
    by (simp_all add: ascii_buffer_def char_of_eq)
  have "hex_to_rgb demo_platform (str ''4488f'') = Inr [68 / 255, 136 / 255, 15 / 255]"
    by (simp add: hex_to_rgb_def py_int16_def str_def b2 f h PyLong_FromString_one PyLong_FromString_two_digits)
  moreover have "hex_to_rgb demo_platform [1636, 1636, 56, 56, 102, 102] = Inr [68 / 255, 136 / 255, 1]"
    by (simp add: hex_to_rgb_def py_int16_def b1 b2 f h PyLong_FromString_two_digits)
  moreover have "\<not> list_all hex_code_point [1636, 1636, 56, 56, 102, 102]"
    by (simp add: hex_code_point_def)
  ultimately show ?thesis by (simp add: str_def)
qed

text \<open>
  C2. For every string of six hex digits, \<^verbatim>\<open>hex_to_rgb\<close> succeeds and
  \<^verbatim>\<open>rgb_to_hex\<close> of its result is the string again, in lower case. This holds with
  the rounding of the division by 255 and of the multiplication by 255.
\<close>

theorem hex_rgb_hex_roundtrip:
  assumes "binary64_like (fl pf)" and "length h = 6" and "list_all is_hex_digit h"
  shows "\<exists>rgb. hex_to_rgb pf (str h) = Inr rgb \<and> rgb_to_hex pf rgb = map ascii_lower h"
proof -
  from assms(2) obtain a1 a2 b1 b2 c1 c2 where h: "h = [a1, a2, b1, b2, c1, c2]"
    by (rule list6)
  from assms(3) obtain x1 y1 x2 y2 x3 y3 where
    v: "hex_val a1 = Some x1" "hex_val a2 = Some y1" "hex_val b1 = Some x2" "hex_val b2 = Some y2"
       "hex_val c1 = Some x3" "hex_val c2 = Some y3"
    unfolding h by (auto simp: is_hex_digit_def)
  let ?rgb = "[fl pf (of_int (int (16 * x1 + y1)) / 255), fl pf (of_int (int (16 * x2 + y2)) / 255),
               fl pf (of_int (int (16 * x3 + y3)) / 255)]"
  have s: "take 2 (str h) = str [a1, a2]" "take 2 (drop 2 (str h)) = str [b1, b2]"
    "take 2 (drop 4 (str h)) = str [c1, c2]"
    by (simp_all add: h str_def)
  have p: "py_int16 pf (str [a1, a2]) = Inr (int (16 * x1 + y1))"
    "py_int16 pf (str [b1, b2]) = Inr (int (16 * x2 + y2))"
    "py_int16 pf (str [c1, c2]) = Inr (int (16 * x3 + y3))"
    using v by (simp_all add: py_int16_str is_hex_digit_def PyLong_FromString_two_digits)
  have "hex_to_rgb pf (str h) = Inr ?rgb"
    unfolding hex_to_rgb_def s p by simp
  moreover have "rgb_to_hex pf ?rgb = map ascii_lower h"
  proof -
    have "rgb_to_hex pf ?rgb =
        concat [format_02x (clamp_channel pf (fl pf (of_int (int (16 * x1 + y1)) / 255))),
                format_02x (clamp_channel pf (fl pf (of_int (int (16 * x2 + y2)) / 255))),
                format_02x (clamp_channel pf (fl pf (of_int (int (16 * x3 + y3)) / 255)))]"
      by (simp only: rgb_to_hex_def list.map)
    also have "\<dots> = concat [[ascii_lower a1, ascii_lower a2], [ascii_lower b1, ascii_lower b2],
        [ascii_lower c1, ascii_lower c2]]"
      by (simp only: slice_roundtrip [OF assms(1) v(1,2)] slice_roundtrip [OF assms(1) v(3,4)]
          slice_roundtrip [OF assms(1) v(5,6)])
    also have "\<dots> = map ascii_lower h" by (simp add: h)
    finally show ?thesis .
  qed
  ultimately show ?thesis by blast
qed

theorem hex_rgb_hex_roundtrip_witness:
  "binary64_like (fl demo_platform) \<and> length ''4488FF'' = 6 \<and> list_all is_hex_digit ''4488FF'' \<and>
   (\<exists>rgb. hex_to_rgb demo_platform (str ''4488FF'') = Inr rgb \<and> rgb_to_hex demo_platform rgb = ''4488ff'')"
proof -
  have a: "length ''4488FF'' = 6" by simp
  have b: "list_all is_hex_digit ''4488FF''" by (simp add: is_hex_digit_def hex_val_def)
  have c: "map ascii_lower ''4488FF'' = ''4488ff''" by (simp add: ascii_lower_def)
  from hex_rgb_hex_roundtrip [OF demo_binary64_like a b] c demo_binary64_like a b
  show ?thesis by simp
qed

text \<open>
  C5. \<^verbatim>\<open>rgb_to_hex\<close> has no failing branch on real channels. For a triple its result
  is six hex digits, and the byte at position \<open>i\<close>, read back with \<^verbatim>\<open>int(s, 16)\<close>,
  is \<open>round(clamp(c\<^sub>i, 0, 1) * 255)\<close>, which lies between 0 and 255.
\<close>

theorem rgb_to_hex_clamps:
  assumes "binary64_like (fl pf)" and "length rgb = 3"
  shows "length (rgb_to_hex pf rgb) = 6 \<and> list_all is_hex_digit (rgb_to_hex pf rgb) \<and>
    (\<forall>i<3. py_int16 pf (str (take 2 (drop (2 * i) (rgb_to_hex pf rgb)))) =
              Inr (py_round (fl pf (max 0 (min 1 (rgb ! i)) * 255))) \<and>
            0 \<le> py_round (fl pf (max 0 (min 1 (rgb ! i)) * 255)) \<and>
            py_round (fl pf (max 0 (min 1 (rgb ! i)) * 255)) \<le> 255)"
proof -
  from assms(2) obtain r g b where rgb: "rgb = [r, g, b]" by (rule list3)
  from channel_hex [OF assms(1), of r] obtain p1 q1 where
    c1: "format_02x (clamp_channel pf r) = [p1, q1]" "is_hex_digit p1" "is_hex_digit q1"
      "py_int16 pf (str [p1, q1]) = Inr (py_round (fl pf (max 0 (min 1 r) * 255)))"
      "0 \<le> py_round (fl pf (max 0 (min 1 r) * 255))" "py_round (fl pf (max 0 (min 1 r) * 255)) \<le> 255"
    by blast
  from channel_hex [OF assms(1), of g] obtain p2 q2 where
    c2: "format_02x (clamp_channel pf g) = [p2, q2]" "is_hex_digit p2" "is_hex_digit q2"
      "py_int16 pf (str [p2, q2]) = Inr (py_round (fl pf (max 0 (min 1 g) * 255)))"
      "0 \<le> py_round (fl pf (max 0 (min 1 g) * 255))" "py_round (fl pf (max 0 (min 1 g) * 255)) \<le> 255"
    by blast
  from channel_hex [OF assms(1), of b] obtain p3 q3 where
    c3: "format_02x (clamp_channel pf b) = [p3, q3]" "is_hex_digit p3" "is_hex_digit q3"
      "py_int16 pf (str [p3, q3]) = Inr (py_round (fl pf (max 0 (min 1 b) * 255)))"
      "0 \<le> py_round (fl pf (max 0 (min 1 b) * 255))" "py_round (fl pf (max 0 (min 1 b) * 255)) \<le> 255"
    by blast
  have out: "rgb_to_hex pf rgb = [p1, q1, p2, q2, p3, q3]"
    by (simp add: rgb rgb_to_hex_def c1(1) c2(1) c3(1))
  have nth: "rgb ! 0 = r" "rgb ! Suc 0 = g" "rgb ! 2 = b" by (simp_all add: rgb)
  have len: "length (rgb_to_hex pf rgb) = 6" by (simp add: out)
  have hex: "list_all is_hex_digit (rgb_to_hex pf rgb)"
    by (simp add: out c1(2,3) c2(2,3) c3(2,3))
  have "py_int16 pf (str (take 2 (drop (2 * i) (rgb_to_hex pf rgb)))) =
              Inr (py_round (fl pf (max 0 (min 1 (rgb ! i)) * 255))) \<and>
            0 \<le> py_round (fl pf (max 0 (min 1 (rgb ! i)) * 255)) \<and>
            py_round (fl pf (max 0 (min 1 (rgb ! i)) * 255)) \<le> 255" if "i < 3" for i
  proof -
    from that consider "i = 0" | "i = 1" | "i = 2" by linarith
    then show ?thesis
    proof cases
      case 1
      then show ?thesis using c1(4-6) by (simp add: out nth)
    next
      case 2
      then show ?thesis using c2(4-6) by (simp add: out nth)
    next
      case 3
      then show ?thesis using c3(4-6) by (simp add: out nth)
    qed
  qed
  with len hex show ?thesis by blast
qed

theorem rgb_to_hex_clamps_witness:
  "binary64_like (fl demo_platform) \<and> length [- 1 / 2, 1 / 3, 2 :: real] = 3 \<and>
   rgb_to_hex demo_platform [- 1 / 2, 1 / 3, 2] = ''0055ff'' \<and>
   py_int16 demo_platform (str (take 2 (drop (2 * 1) (rgb_to_hex demo_platform [- 1 / 2, 1 / 3, 2])))) = Inr 85"
proof -
  have a: "length [- 1 / 2, 1 / 3, 2 :: real] = 3" by simp
  have b: "(1::nat) < 3" by simp
  have f: "fl demo_platform = (\<lambda>x. x)" by (simp add: demo_platform_def)
  have c: "py_round (fl demo_platform (max 0 (min 1 ([- 1 / 2, 1 / 3, 2 :: real] ! 1)) * 255)) = 85"
    by (simp add: f py_round_def)
  have d: "rgb_to_hex demo_platform [- 1 / 2, 1 / 3, 2] = ''0055ff''"
    by code_simp
  from rgb_to_hex_clamps [OF demo_binary64_like a] b
  have "py_int16 demo_platform (str (take 2 (drop (2 * 1) (rgb_to_hex demo_platform [- 1 / 2, 1 / 3, 2])))) =
      Inr (py_round (fl demo_platform (max 0 (min 1 ([- 1 / 2, 1 / 3, 2 :: real] ! 1)) * 255)))"
    by blast
  with c d demo_binary64_like a show ?thesis by (simp only: simp_thms)
qed

section \<open>The full pipeline\<close>

text \<open>
  C3. \<^verbatim>\<open>hex_to_rgb("4488ff")\<close> is \<open>(68/255, 136/255, 1)\<close>, about
  \<open>(0.267, 0.533, 1.0)\<close>. The forward pipeline followed by the inverse pipeline does
  not give \<^verbatim>\<open>4488ff\<close> back: \<^verbatim>\<open>xyz_to_rgb\<close> divides by 100 tristimulus values that
  \<^verbatim>\<open>rgb_to_xyz\<close> never multiplied by 100. With a library whose conversions are exact
  inverses of each other the result is \<^verbatim>\<open>010103\<close>.
\<close>

theorem full_pipeline_4488ff:
  "hex_to_rgb unit_scale_platform (str ''4488ff'') = Inr [68 / 255, 136 / 255, 1] \<and>
   map_sum id (ciecam16_to_hex unit_scale_platform) (hex_to_ciecam16 unit_scale_platform (str ''4488ff'')) =
     Inr ''010103''"
proof -
  have "map_sum id (ciecam16_to_hex unit_scale_platform) (hex_to_ciecam16 unit_scale_platform (str ''4488ff'')) =
     Inr (rgb_to_hex unit_scale_platform (XYZ_to_sRGB unit_scale_platform
       (map (\<lambda>v. fl unit_scale_platform (v / 100)) (sRGB_to_XYZ unit_scale_platform [68 / 255, 136 / 255, 1]))))"
    by (rule pipeline_composition [OF unit_scale_hex_to_rgb]) (simp add: unit_scale_platform_def)
  also have "\<dots> = Inr (rgb_to_hex unit_scale_platform [68 / 25500, 136 / 25500, 1 / 100])"
    by (simp add: unit_scale_platform_def)
  finally show ?thesis using unit_scale_hex_to_rgb unit_scale_dark by simp
qed

end
